theory Spec2Isabelle
  imports Main "HOL-Library.Signed_Division"
begin

section \<open>The filter-primitive objects read by the connection column\<close>

text \<open>
  The dialog reads, for every primitive, the image numbers parsed from its attributes:
  \<^verbatim>\<open>image_in\<close>, \<^verbatim>\<open>image_out\<close>, the \<^verbatim>\<open>in2\<close> of the three two-input primitives, and
  the \<^verbatim>\<open>input\<close> of each feMergeNode child of an feMerge. They are C \<^verbatim>\<open>int\<close>s; no
  operation on them below leaves the 32-bit range, so they are modelled by \<open>int\<close>.
  A child of an feMerge is tested with \<^verbatim>\<open>SP_IS_FEMERGENODE\<close> before it is read, so a
  child may also be some other object.
\<close>

datatype SPObject = FeMergeNode (input: int) | OtherObject

datatype PrimitiveType =
    FeBlend (in2: int)
  | FeComposite (in2: int)
  | FeDisplacementMap (in2: int)
  | FeMerge (children: "SPObject list")
  | FeOther

record SPFilterPrimitive =
  image_in :: int
  image_out :: int
  ptype :: PrimitiveType

subsection \<open>input_count\<close>

text \<open>The loop of \<^verbatim>\<open>input_count\<close> over the children of an feMerge, started at 1.\<close>

fun count_children :: "SPObject list \<Rightarrow> int \<Rightarrow> int" where
  "count_children [] count = count"
| "count_children (obj # rest) count = count_children rest (count + 1)"

text \<open>A null \<^verbatim>\<open>prim\<close> is \<open>None\<close>.\<close>

fun input_count :: "SPFilterPrimitive option \<Rightarrow> int" where
  "input_count None = 0"
| "input_count (Some prim) =
     (case ptype prim of
        FeBlend _ \<Rightarrow> 2
      | FeComposite _ \<Rightarrow> 2
      | FeDisplacementMap _ \<Rightarrow> 2
      | FeMerge cs \<Rightarrow> count_children cs 1
      | FeOther \<Rightarrow> 1)"

text \<open>
  \<^verbatim>\<open>do_connection_node\<close> divides the height of the row by \<^verbatim>\<open>input_count\<close> (an integer
  division, truncating toward zero) before anything else; a zero divisor is \<open>None\<close>.
\<close>

definition slot_height :: "int \<Rightarrow> SPFilterPrimitive option \<Rightarrow> int option" where
  "slot_height rct_height prim =
     (let icnt = input_count prim
      in if icnt = 0 then None else Some (rct_height sdiv icnt))"

subsection \<open>find_result\<close>

text \<open>
  A \<^verbatim>\<open>Gtk::TreeIter\<close> over the rows of the list store is the position of the row;
  \<^verbatim>\<open>children().end()\<close> is the number of rows, and is the only iterator that tests
  false. The model of the list is the list of the primitives of its rows (\<^verbatim>\<open>update\<close>
  appends a row only for a non-null primitive).

  The values of the attribute keys \<^verbatim>\<open>SP_ATTR_IN\<close> and \<^verbatim>\<open>SP_ATTR_IN2\<close> come from an
  enumeration declared outside these sources, so they are taken as a parameter.
\<close>

type_synonym TreeIter = nat

record SPAttributeEnum =
  SP_ATTR_IN :: int
  SP_ATTR_IN2 :: int

text \<open>
  The first loop of \<^verbatim>\<open>find_result\<close>: child number \<open>c\<close> sets \<^verbatim>\<open>image\<close> when \<open>c\<close> is
  \<^verbatim>\<open>attr\<close> and the child is an feMergeNode. \<^verbatim>\<open>image\<close> is assigned exactly when
  \<^verbatim>\<open>found\<close> becomes true, so the pair is one optional value.
\<close>

fun merge_image :: "SPObject list \<Rightarrow> int \<Rightarrow> int \<Rightarrow> int option \<Rightarrow> int option" where
  "merge_image [] attr c img = img"
| "merge_image (obj # rest) attr c img =
     merge_image rest attr (c + 1)
       (case obj of
          FeMergeNode i \<Rightarrow> if c = attr then Some i else img
        | OtherObject \<Rightarrow> img)"

text \<open>
  The first half of \<^verbatim>\<open>find_result\<close>: the image number stored in the slot, or \<open>None\<close>
  where the function returns \<^verbatim>\<open>target\<close> (the end of the list) at once.
\<close>

definition read_image :: "SPAttributeEnum \<Rightarrow> SPFilterPrimitive \<Rightarrow> int \<Rightarrow> int option" where
  "read_image E prim attr =
     (case ptype prim of
        FeMerge cs \<Rightarrow> merge_image cs attr 0 None
      | _ \<Rightarrow>
          if attr = SP_ATTR_IN E then Some (image_in prim)
          else if attr = SP_ATTR_IN2 E then
            (case ptype prim of
               FeBlend i2 \<Rightarrow> Some i2
             | FeComposite i2 \<Rightarrow> Some i2
             | FeDisplacementMap i2 \<Rightarrow> Some i2
             | _ \<Rightarrow> None)
          else None)"

text \<open>
  The second loop: the rows from the first one up to, and without, \<^verbatim>\<open>start\<close>; every
  row whose \<^verbatim>\<open>image_out\<close> is \<^verbatim>\<open>image\<close> overwrites \<^verbatim>\<open>target\<close>.
\<close>

fun scan_results :: "SPFilterPrimitive list \<Rightarrow> int \<Rightarrow> TreeIter list \<Rightarrow> TreeIter \<Rightarrow> TreeIter" where
  "scan_results model img [] target = target"
| "scan_results model img (i # rest) target =
     scan_results model img rest (if image_out (model ! i) = img then i else target)"

text \<open>
  \<^verbatim>\<open>find_result\<close> returns an iterator and may write \<^verbatim>\<open>src_id\<close>, which the caller
  passes by reference: the result is the pair of both.
\<close>

definition find_result ::
  "SPAttributeEnum \<Rightarrow> SPFilterPrimitive list \<Rightarrow> TreeIter \<Rightarrow> int \<Rightarrow> int \<Rightarrow> TreeIter \<times> int" where
  "find_result E model start attr src_id =
     (let prim = model ! start;
          target = length model
      in case read_image E prim attr of
           None \<Rightarrow> (target, src_id)
         | Some img \<Rightarrow>
             if img \<ge> 0 then (scan_results model img [0..<start] target, src_id)
             else if img < -1 then (start, - (img + 2))
             else (target, src_id))"

subsection \<open>draw_connection\<close>

text \<open>
  The two graphic contexts \<^verbatim>\<open>draw_connection\<close> chooses between, and what it draws. The
  coordinates come from the widget and are left out: a straight connection is the
  square and the line that end in the column of standard input \<^verbatim>\<open>src_id\<close>, an
  L-shaped one is the three lines that end under the row \<^verbatim>\<open>res\<close>. Each carries the
  graphic context that the drawing calls are given.
\<close>

datatype GC = black_gc | dark_gc_normal

datatype Drawing = Straight GC int | LShape GC TreeIter

definition draw_connection ::
  "SPAttributeEnum \<Rightarrow> SPFilterPrimitive list \<Rightarrow> TreeIter \<Rightarrow> int \<Rightarrow> Drawing list" where
  "draw_connection E model inp attr =
     (let (res, src_id) = find_result E model inp attr 0;
          darkgc = black_gc;
          lightgc = dark_gc_normal;
          is_first = (inp = 0);
          is_merge = (case ptype (model ! inp) of FeMerge _ \<Rightarrow> True | _ \<Rightarrow> False);
          use_default = (res = length model \<and> \<not> is_merge)
      in if res = inp \<or> (use_default \<and> is_first) then
           [Straight (if use_default \<and> is_first then lightgc else darkgc) src_id]
         else
           let gc = (if use_default then lightgc else darkgc);
               res = (if use_default then inp - 1 else res)
           in if res \<noteq> length model then [LShape black_gc res] else [])"

subsection \<open>check_single_connection and sanitize_connections\<close>

text \<open>
  Modelled from the spec: the parsing of the attributes into the image numbers is not in
  these sources. \<^verbatim>\<open>check_single_connection\<close> clears a slot by setting its attribute to
  null; the spec has the slot \<open>Unspecified\<close> from then on, at once, and \<^verbatim>\<open>find_result\<close>
  treats the one number that is neither a result (\<open>\<ge> 0\<close>) nor a standard input
  (\<open>< -1\<close>) so. The model writes that number where the source clears the attribute.
\<close>

definition NR_FILTER_SLOT_NOT_SET :: int where
  "NR_FILTER_SLOT_NOT_SET = -1"

definition check_single_connection :: "SPFilterPrimitive \<Rightarrow> int \<Rightarrow> SPFilterPrimitive" where
  "check_single_connection prim result =
     (if result \<ge> 0 then
        let prim = (if image_in prim = result
                    then prim\<lparr>image_in := NR_FILTER_SLOT_NOT_SET\<rparr> else prim)
        in case ptype prim of
             FeBlend i2 \<Rightarrow>
               if i2 = result then prim\<lparr>ptype := FeBlend NR_FILTER_SLOT_NOT_SET\<rparr> else prim
           | FeComposite i2 \<Rightarrow>
               if i2 = result then prim\<lparr>ptype := FeComposite NR_FILTER_SLOT_NOT_SET\<rparr> else prim
           | FeDisplacementMap i2 \<Rightarrow>
               if i2 = result then prim\<lparr>ptype := FeDisplacementMap NR_FILTER_SLOT_NOT_SET\<rparr>
               else prim
           | _ \<Rightarrow> prim
      else prim)"

text \<open>
  The loop of \<^verbatim>\<open>sanitize_connections\<close> over all rows, with its flag \<^verbatim>\<open>before\<close>. The
  primitives are objects changed in place: the model writes each changed primitive back
  into its row, and reads \<^verbatim>\<open>prim->image_out\<close> from the row of \<^verbatim>\<open>prim_iter\<close> each time.
\<close>

fun sanitize_loop ::
  "TreeIter \<Rightarrow> TreeIter list \<Rightarrow> bool \<Rightarrow> SPFilterPrimitive list \<Rightarrow> SPFilterPrimitive list" where
  "sanitize_loop prim_iter [] before model = model"
| "sanitize_loop prim_iter (iter # rest) before model =
     (if iter = prim_iter then sanitize_loop prim_iter rest False model
      else if before then
        sanitize_loop prim_iter rest before
          (model[iter := check_single_connection (model ! iter) (image_out (model ! prim_iter))])
      else
        sanitize_loop prim_iter rest before
          (model[prim_iter :=
             check_single_connection (model ! prim_iter) (image_out (model ! iter))]))"

definition sanitize_connections :: "SPFilterPrimitive list \<Rightarrow> TreeIter \<Rightarrow> SPFilterPrimitive list" where
  "sanitize_connections model prim_iter = sanitize_loop prim_iter [0..<length model] True model"

section \<open>The document edited when a dragged connection is released\<close>

text \<open>
  \<^verbatim>\<open>on_button_release_event\<close> reads and writes the XML nodes of the primitives: the
  attributes \<^verbatim>\<open>result\<close>, \<^verbatim>\<open>in\<close> and \<^verbatim>\<open>in2\<close> (a null attribute is \<open>None\<close>), and the
  children of an feMerge, each an feMergeNode with its own \<^verbatim>\<open>in\<close> or some other node.
  The objects of the section above are parsed from these nodes by code outside these
  sources; this section is about the nodes alone.
\<close>

datatype XMLChild = FeMergeNodeRepr (child_in: "string option") | OtherRepr

record Repr =
  is_femerge :: bool
  attr_result :: "string option"
  attr_in :: "string option"
  attr_in2 :: "string option"
  kids :: "XMLChild list"









text \<open>
  \<^verbatim>\<open>set_attr\<close> sets the attribute unless the dialog is locked (the selected filter and
  the name of the attribute are not null here).
\<close>

definition set_attr_child :: "bool \<Rightarrow> XMLChild \<Rightarrow> string option \<Rightarrow> XMLChild" where
  "set_attr_child lk obj val =
     (if lk then obj else case obj of FeMergeNodeRepr _ \<Rightarrow> FeMergeNodeRepr val | OtherRepr \<Rightarrow> obj)"

definition set_attr_in :: "bool \<Rightarrow> Repr \<Rightarrow> string option \<Rightarrow> Repr" where
  "set_attr_in lk prim val = (if lk then prim else prim\<lparr>attr_in := val\<rparr>)"

definition set_attr_in2 :: "bool \<Rightarrow> Repr \<Rightarrow> string option \<Rightarrow> Repr" where
  "set_attr_in2 lk prim val = (if lk then prim else prim\<lparr>attr_in2 := val\<rparr>)"

text \<open>
  The loop over the children of the selected feMerge, which stops once \<^verbatim>\<open>handled\<close>:
  it returns the children, \<^verbatim>\<open>handled\<close> and the counter \<open>c\<close> (incremented once more
  after the child that was handled).
\<close>

fun merge_loop ::
  "bool \<Rightarrow> XMLChild list \<Rightarrow> int \<Rightarrow> int \<Rightarrow> string option \<Rightarrow> XMLChild list \<times> bool \<times> int" where
  "merge_loop lk [] c drag in_val = ([], False, c)"
| "merge_loop lk (obj # rest) c drag in_val =
     (if c = drag \<and> obj \<noteq> OtherRepr then
        (case in_val of
           None \<Rightarrow> (rest, True, c + 1)
         | Some v \<Rightarrow> (set_attr_child lk obj in_val # rest, True, c + 1))
      else
        let (rest', handled, c') = merge_loop lk rest (c + 1) drag in_val
        in (obj # rest', handled, c'))"

text \<open>The branch of the handler for an feMerge: the loop, then the new input.\<close>

definition commit_merge :: "bool \<Rightarrow> XMLChild list \<Rightarrow> int \<Rightarrow> string option \<Rightarrow> XMLChild list" where
  "commit_merge lk cs drag in_val =
     (let (cs', handled, c) = merge_loop lk cs 1 drag in_val
      in if \<not> handled \<and> c = drag \<and> in_val \<noteq> None
         then cs' @ [set_attr_child lk (FeMergeNodeRepr None) in_val]
         else cs')"

text \<open>
  The commit: an feMerge goes through the branch above, any other primitive has its
  \<^verbatim>\<open>in\<close> set for slot 1 and its \<^verbatim>\<open>in2\<close> for slot 2.
\<close>

definition commit :: "bool \<Rightarrow> int \<Rightarrow> TreeIter \<Rightarrow> Repr list \<Rightarrow> string option \<Rightarrow> Repr list" where
  "commit lk drag sel reprs in_val =
     (let prim = reprs ! sel
      in if is_femerge prim then
           reprs[sel := prim\<lparr>kids := commit_merge lk (kids prim) drag in_val\<rparr>]
         else if drag = 1 then reprs[sel := set_attr_in lk prim in_val]
         else if drag = 2 then reprs[sel := set_attr_in2 lk prim in_val]
         else reprs)"


section \<open>The reference codec\<close>

text \<open>
  Modelled from the spec: the codec is not a function of these sources (\<^verbatim>\<open>find_result\<close>
  branches on the raw number in place, and nothing here writes one). The spec has three
  kinds of reference, a raw value that may be absent, and:
  raw absent is \<open>Unspecified\<close>; \<open>raw \<ge> 0\<close> is \<open>NamedResult raw\<close>; \<open>raw < -1\<close> is
  \<open>StandardSource (-(raw + 2))\<close>; \<open>raw = -1\<close> is reserved and decodes to \<open>Unspecified\<close>;
  \<open>encode\<close> is the inverse mapping, \<open>Unspecified\<close> to the absent attribute. Output ids
  and the indices of the standard sources are not negative.
\<close>

datatype InputReference = Unspecified | StandardSource nat | NamedResult nat

definition decode :: "int option \<Rightarrow> InputReference" where
  "decode raw =
     (case raw of
        None \<Rightarrow> Unspecified
      | Some r \<Rightarrow>
          if r \<ge> 0 then NamedResult (nat r)
          else if r < -1 then StandardSource (nat (- (r + 2)))
          else Unspecified)"

definition encode :: "InputReference \<Rightarrow> int option" where
  "encode ref =
     (case ref of
        Unspecified \<Rightarrow> None
      | StandardSource i \<Rightarrow> Some (- (int i + 2))
      | NamedResult n \<Rightarrow> Some (int n))"

section \<open>Properties of input_count\<close>

lemma count_children_length: "count_children cs count = count + int (length cs)"
  by (induction cs arbitrary: count) simp_all

text \<open>
  Claim C9, as the code has it: \<^verbatim>\<open>input_count\<close> is 0 for a null primitive, 2 for
  feBlend, feComposite and feDisplacementMap, the number of children plus one for an
  feMerge, whoever asks, and 1 for every other primitive.
\<close>

theorem input_count_cases:
  "input_count prim =
     (case prim of
        None \<Rightarrow> 0
      | Some p \<Rightarrow>
          (case ptype p of
             FeBlend _ \<Rightarrow> 2
           | FeComposite _ \<Rightarrow> 2
           | FeDisplacementMap _ \<Rightarrow> 2
           | FeMerge cs \<Rightarrow> int (length cs) + 1
           | FeOther \<Rightarrow> 1))"
  by (cases prim) (simp_all add: count_children_length split: PrimitiveType.split)

text \<open>
  Claim C9 as it is stated has \<^verbatim>\<open>input_count\<close> return the number of merge nodes of an
  feMerge when the graph is asked: for an feMerge with two merge nodes the function
  returns 3, not 2.
\<close>

theorem input_count_merge_counterexample:
  "input_count (Some \<lparr>image_in = -1, image_out = -1,
                       ptype = FeMerge [FeMergeNode (-2), FeMergeNode (-3)]\<rparr>) \<noteq> 2"
  by simp

text \<open>
  Claim C10: for every non-null primitive \<^verbatim>\<open>input_count\<close> is at least 1 (the number of
  children plus one for an feMerge, 1 or 2 for every other kind), so the division of the
  row height by it in \<^verbatim>\<open>do_connection_node\<close> never has a zero divisor.
\<close>

theorem input_count_positive:
  "1 \<le> input_count (Some prim) \<and>
   (case ptype prim of
      FeMerge cs \<Rightarrow> input_count (Some prim) = int (length cs) + 1
    | FeOther \<Rightarrow> input_count (Some prim) = 1
    | _ \<Rightarrow> input_count (Some prim) = 2) \<and>
   slot_height rct_height (Some prim) = Some (rct_height sdiv input_count (Some prim))"
proof -
  have pos: "1 \<le> input_count (Some prim)"
    by (simp add: count_children_length split: PrimitiveType.split)
  then have "input_count (Some prim) \<noteq> 0" by linarith
  then have "slot_height rct_height (Some prim) = Some (rct_height sdiv input_count (Some prim))"
    unfolding slot_height_def Let_def by (simp only: if_False)
  moreover have "case ptype prim of
      FeMerge cs \<Rightarrow> input_count (Some prim) = int (length cs) + 1
    | FeOther \<Rightarrow> input_count (Some prim) = 1
    | _ \<Rightarrow> input_count (Some prim) = 2"
    by (simp add: count_children_length split: PrimitiveType.split)
  ultimately show ?thesis using pos by blast
qed

section \<open>Properties of the reference codec\<close>

text \<open>
  Claim C7: the codec is a bijection on its legal domain. \<open>decode\<close> maps the absent value
  and \<open>-1\<close> to \<open>Unspecified\<close>, \<open>raw \<ge> 0\<close> to \<open>NamedResult raw\<close> and \<open>raw < -1\<close> to
  \<open>StandardSource (-(raw + 2))\<close>; \<open>decode (encode r) = r\<close> for every reference, and
  \<open>encode (decode raw) = raw\<close> for every raw value but \<open>-1\<close>.
\<close>

theorem codec_roundtrip:
  "decode None = Unspecified \<and>
   decode (Some (-1)) = Unspecified \<and>
   (\<forall>raw. 0 \<le> raw \<longrightarrow> decode (Some raw) = NamedResult (nat raw)) \<and>
   (\<forall>raw. raw < -1 \<longrightarrow> decode (Some raw) = StandardSource (nat (- (raw + 2)))) \<and>
   (\<forall>r. decode (encode r) = r) \<and>
   (\<forall>raw. raw \<noteq> Some (-1) \<longrightarrow> encode (decode raw) = raw) \<and>
   bij_betw decode {raw. raw \<noteq> Some (-1)} UNIV"
proof -
  have dec_enc: "decode (encode r) = r" for r
    by (cases r) (simp_all add: decode_def encode_def)
  have enc_dec: "encode (decode raw) = raw" if "raw \<noteq> Some (-1)" for raw
    using that by (cases raw) (auto simp: decode_def encode_def)
  have "bij_betw decode {raw. raw \<noteq> Some (-1)} UNIV"
  proof (rule bij_betw_byWitness[where f' = encode])
    show "\<forall>a\<in>{raw. raw \<noteq> Some (- 1)}. encode (decode a) = a" using enc_dec by simp
    show "\<forall>a'\<in>UNIV. decode (encode a') = a'" using dec_enc by simp
    show "decode ` {raw. raw \<noteq> Some (- 1)} \<subseteq> UNIV" by simp
    show "encode ` UNIV \<subseteq> {raw. raw \<noteq> Some (- 1)}"
      by (auto simp: encode_def split: InputReference.splits)
  qed
  moreover have "decode None = Unspecified" "decode (Some (-1)) = Unspecified"
    by (simp_all add: decode_def)
  moreover have "\<forall>raw. 0 \<le> raw \<longrightarrow> decode (Some raw) = NamedResult (nat raw)"
    by (simp add: decode_def)
  moreover have "\<forall>raw. raw < -1 \<longrightarrow> decode (Some raw) = StandardSource (nat (- (raw + 2)))"
    by (simp add: decode_def)
  ultimately show ?thesis using dec_enc enc_dec by blast
qed

text \<open>The theorem at the raw values 5 and -4 and at the second standard source.\<close>

theorem codec_roundtrip_witness:
  "(0::int) \<le> 5 \<and> decode (Some 5) = NamedResult 5 \<and>
   (-4::int) < -1 \<and> decode (Some (-4)) = StandardSource 2 \<and>
   Some (-4::int) \<noteq> Some (-1) \<and> encode (decode (Some (-4))) = Some (-4) \<and>
   decode (encode (StandardSource 2)) = StandardSource 2"
proof -
  note c = codec_roundtrip
  from c have named: "\<forall>raw. 0 \<le> raw \<longrightarrow> decode (Some raw) = NamedResult (nat raw)"
    by blast
  from c have std: "\<forall>raw. raw < -1 \<longrightarrow> decode (Some raw) = StandardSource (nat (- (raw + 2)))"
    by blast
  from c have encdec: "\<forall>raw. raw \<noteq> Some (-1) \<longrightarrow> encode (decode raw) = raw"
    by blast
  from c have decenc: "\<forall>r. decode (encode r) = r"
    by blast
  have "decode (Some 5) = NamedResult 5"
    using named [rule_format, of 5] by simp
  moreover have "decode (Some (-4)) = StandardSource 2"
    using std [rule_format, of "-4"] by simp
  moreover have "encode (decode (Some (-4))) = Some (-4)"
    using encdec [rule_format, of "Some (-4)"] by simp
  moreover have "decode (encode (StandardSource 2)) = StandardSource 2"
    using decenc by blast
  ultimately show ?thesis by simp
qed

text \<open>
  \<^verbatim>\<open>find_result\<close> branches on the number of a slot exactly as \<open>decode\<close> classifies it.
\<close>

lemma find_result_decode:
  "read_image E (model ! start) attr = Some img \<Longrightarrow>
   find_result E model start attr src_id =
     (case decode (Some img) of
        NamedResult n \<Rightarrow> (scan_results model (int n) [0..<start] (length model), src_id)
      | StandardSource i \<Rightarrow> (start, int i)
      | Unspecified \<Rightarrow> (length model, src_id))"
  by (simp add: find_result_def decode_def Let_def)

section \<open>Properties of find_result\<close>

lemma scan_results_snoc:
  "scan_results model img (xs @ [n]) target =
     (if image_out (model ! n) = img then n else scan_results model img xs target)"
  by (induction xs arbitrary: target) simp_all

lemma scan_results_none:
  "\<forall>j<n. image_out (model ! j) \<noteq> img \<Longrightarrow> scan_results model img [0..<n] target = target"
  by (induction n) (simp_all add: scan_results_snoc)

lemma scan_results_found:
  "\<exists>j<n. image_out (model ! j) = img \<Longrightarrow>
   scan_results model img [0..<n] target < n \<and>
   image_out (model ! scan_results model img [0..<n] target) = img \<and>
   (\<forall>k. scan_results model img [0..<n] target < k \<and> k < n \<longrightarrow>
        image_out (model ! k) \<noteq> img)"
proof (induction n)
  case 0
  then show ?case by simp
next
  case (Suc n)
  show ?case
  proof (cases "image_out (model ! n) = img")
    case True
    then have "scan_results model img [0..<Suc n] target = n"
      by (simp add: scan_results_snoc)
    then show ?thesis using True by simp
  next
    case False
    have step: "scan_results model img [0..<Suc n] target = scan_results model img [0..<n] target"
      using False by (simp add: scan_results_snoc)
    from Suc.prems obtain j where j: "j < Suc n" "image_out (model ! j) = img" by blast
    with False have "j \<noteq> n" by blast
    with j have "\<exists>j<n. image_out (model ! j) = img" using less_Suc_eq by blast
    from Suc.IH [OF this] have r: "scan_results model img [0..<n] target < n"
      "image_out (model ! scan_results model img [0..<n] target) = img"
      and after: "\<And>k. scan_results model img [0..<n] target < k \<Longrightarrow> k < n \<Longrightarrow>
         image_out (model ! k) \<noteq> img"
      by blast+
    have "image_out (model ! k) \<noteq> img"
      if "scan_results model img [0..<n] target < k" "k < Suc n" for k
    proof (cases "k = n")
      case True
      with False show ?thesis by simp
    next
      case kn: False
      with that have "k < n" by simp
      with after that show ?thesis by blast
    qed
    with r show ?thesis unfolding step by (simp add: less_Suc_eq)
  qed
qed

lemma scan_results_cong:
  "\<forall>i\<in>set xs. image_out (model' ! i) = image_out (model ! i) \<Longrightarrow>
   scan_results model' img xs target = scan_results model img xs target"
  by (induction xs arbitrary: target) simp_all

text \<open>
  Claim C1, as the code has it: when the slot holds a result number \<open>img \<ge> 0\<close>,
  \<^verbatim>\<open>find_result\<close> leaves \<^verbatim>\<open>src_id\<close> alone and scans the rows strictly before
  \<^verbatim>\<open>start\<close> only (the rows from \<^verbatim>\<open>start\<close> on, the slot of \<^verbatim>\<open>start\<close> apart, have no
  part in the answer). When some earlier row declares \<open>img\<close> it returns the last such
  row, and \<^verbatim>\<open>draw_connection\<close> draws the connection to that row. When no earlier row
  declares \<open>img\<close> it returns the end of the list, which is also its answer for a slot
  that is not set, and \<^verbatim>\<open>draw_connection\<close> draws what it draws for such a slot: nothing
  for a merge node, and for any other primitive the default connection, to the first
  standard input in the first row and to the row before in a later row.
\<close>

theorem find_result_named:
  assumes "start < length model"
    and "read_image E (model ! start) attr = Some img"
    and "0 \<le> img"
  shows "snd (find_result E model start attr src_id) = src_id \<and>
    ((\<exists>j<start. image_out (model ! j) = img) \<longrightarrow>
       fst (find_result E model start attr src_id) < start \<and>
       image_out (model ! fst (find_result E model start attr src_id)) = img \<and>
       (\<forall>k. fst (find_result E model start attr src_id) < k \<and> k < start \<longrightarrow>
            image_out (model ! k) \<noteq> img) \<and>
       draw_connection E model start attr =
         [LShape black_gc (fst (find_result E model start attr src_id))]) \<and>
    ((\<forall>j<start. image_out (model ! j) \<noteq> img) \<longrightarrow>
       find_result E model start attr src_id = (length model, src_id) \<and>
       draw_connection E model start attr =
         (case ptype (model ! start) of
            FeMerge cs \<Rightarrow> []
          | _ \<Rightarrow> if start = 0 then [Straight dark_gc_normal 0]
                 else [LShape black_gc (start - 1)])) \<and>
    (\<forall>model'. length model' = length model \<and> model' ! start = model ! start \<and>
         take start model' = take start model \<longrightarrow>
         find_result E model' start attr src_id = find_result E model start attr src_id)"
proof -
  have fr: "find_result E model start attr s =
      (scan_results model img [0..<start] (length model), s)" for s
    using assms by (simp add: find_result_def Let_def)
  have indep: "find_result E model' start attr src_id = find_result E model start attr src_id"
    if len: "length model' = length model" and same: "model' ! start = model ! start"
      and before: "take start model' = take start model" for model'
  proof -
    have "model' ! i = model ! i" if "i < start" for i
    proof -
      have "model' ! i = take start model' ! i" using that by simp
      also have "\<dots> = take start model ! i" using before by simp
      also have "\<dots> = model ! i" using that by simp
      finally show ?thesis .
    qed
    then have "\<forall>i\<in>set [0..<start]. image_out (model' ! i) = image_out (model ! i)"
      by simp
    then have "scan_results model' img [0..<start] (length model) =
        scan_results model img [0..<start] (length model)"
      by (rule scan_results_cong)
    moreover have "find_result E model' start attr src_id =
        (scan_results model' img [0..<start] (length model'), src_id)"
      using assms same by (simp add: find_result_def Let_def)
    ultimately show ?thesis using fr len by simp
  qed
  define r where "r = scan_results model img [0..<start] (length model)"
  have fst_r: "fst (find_result E model start attr src_id) = r"
    by (simp add: fr r_def)
  have c1: "snd (find_result E model start attr src_id) = src_id"
    by (simp add: fr)
  have c2: "r < start \<and> image_out (model ! r) = img \<and>
       (\<forall>k. r < k \<and> k < start \<longrightarrow> image_out (model ! k) \<noteq> img) \<and>
       draw_connection E model start attr = [LShape black_gc r]"
    if found: "\<exists>j<start. image_out (model ! j) = img"
  proof -
    from scan_results_found [OF found, of "length model"]
    have scan: "r < start \<and> image_out (model ! r) = img \<and>
        (\<forall>k. r < k \<and> k < start \<longrightarrow> image_out (model ! k) \<noteq> img)"
      unfolding r_def .
    then have "r \<noteq> start" "r \<noteq> length model"
      using assms(1) by simp_all
    then have "draw_connection E model start attr = [LShape black_gc r]"
      unfolding draw_connection_def fr r_def [symmetric] by (simp add: Let_def)
    with scan show ?thesis by blast
  qed
  have c3: "find_result E model start attr src_id = (length model, src_id) \<and>
       draw_connection E model start attr =
         (case ptype (model ! start) of
            FeMerge cs \<Rightarrow> []
          | _ \<Rightarrow> if start = 0 then [Straight dark_gc_normal 0]
                 else [LShape black_gc (start - 1)])"
    if none: "\<forall>j<start. image_out (model ! j) \<noteq> img"
  proof -
    from scan_results_none [OF none, of "length model"]
    have r: "r = length model" unfolding r_def .
    then have ne: "r \<noteq> start" using assms(1) by simp
    have "draw_connection E model start attr =
         (case ptype (model ! start) of
            FeMerge cs \<Rightarrow> []
          | _ \<Rightarrow> if start = 0 then [Straight dark_gc_normal 0]
                 else [LShape black_gc (start - 1)])"
      unfolding draw_connection_def fr r_def [symmetric]
      using r ne assms(1) by (cases "ptype (model ! start)") (auto simp: Let_def)
    moreover have "find_result E model start attr src_id = (length model, src_id)"
      using r by (simp add: fr r_def)
    ultimately show ?thesis by blast
  qed
  have c4: "\<forall>model'. length model' = length model \<and> model' ! start = model ! start \<and>
         take start model' = take start model \<longrightarrow>
         find_result E model' start attr src_id = find_result E model start attr src_id"
    using indep by (intro allI impI) (elim conjE)
  from c1 c2 c3 c4 show ?thesis
    unfolding fst_r by (intro conjI impI) blast+
qed

text \<open>
  The shadowing scenario: rows 0 and 2 both declare result 5, and the \<^verbatim>\<open>in\<close> of row 3
  refers to 5; the answer is row 2, and the connection is drawn to it.
\<close>

theorem find_result_named_witness:
  "(3::nat) < length
     [\<lparr>image_in = -1, image_out = 5, ptype = FeOther\<rparr>,
      \<lparr>image_in = -1, image_out = -1, ptype = FeOther\<rparr>,
      \<lparr>image_in = -1, image_out = 5, ptype = FeOther\<rparr>,
      \<lparr>image_in = 5, image_out = -1, ptype = FeOther\<rparr>] \<and>
   find_result \<lparr>SP_ATTR_IN = 0, SP_ATTR_IN2 = 1\<rparr>
     [\<lparr>image_in = -1, image_out = 5, ptype = FeOther\<rparr>,
      \<lparr>image_in = -1, image_out = -1, ptype = FeOther\<rparr>,
      \<lparr>image_in = -1, image_out = 5, ptype = FeOther\<rparr>,
      \<lparr>image_in = 5, image_out = -1, ptype = FeOther\<rparr>] 3 0 0 = (2, 0) \<and>
   draw_connection \<lparr>SP_ATTR_IN = 0, SP_ATTR_IN2 = 1\<rparr>
     [\<lparr>image_in = -1, image_out = 5, ptype = FeOther\<rparr>,
      \<lparr>image_in = -1, image_out = -1, ptype = FeOther\<rparr>,
      \<lparr>image_in = -1, image_out = 5, ptype = FeOther\<rparr>,
      \<lparr>image_in = 5, image_out = -1, ptype = FeOther\<rparr>] 3 0 = [LShape black_gc 2]"
proof -
  let ?E = "\<lparr>SP_ATTR_IN = 0, SP_ATTR_IN2 = 1\<rparr>"
  let ?g = "[\<lparr>image_in = -1, image_out = 5, ptype = FeOther\<rparr>,
      \<lparr>image_in = -1, image_out = -1, ptype = FeOther\<rparr>,
      \<lparr>image_in = -1, image_out = 5, ptype = FeOther\<rparr>,
      \<lparr>image_in = 5, image_out = -1, ptype = FeOther\<rparr>]"
  have len: "(3::nat) < length ?g" by simp
  have slot: "read_image ?E (?g ! 3) 0 = Some 5" by (simp add: read_image_def)
  have nonneg: "(0::int) \<le> 5" by simp
  have ex: "\<exists>j<3::nat. image_out (?g ! j) = 5"
    by (rule exI [of _ 0]) simp
  note t = find_result_named [OF len slot nonneg, of 0]
  from t have sid: "snd (find_result ?E ?g 3 0 0) = 0" by (rule conjunct1)
  from t ex have found: "fst (find_result ?E ?g 3 0 0) < 3 \<and>
       image_out (?g ! fst (find_result ?E ?g 3 0 0)) = 5 \<and>
       (\<forall>k. fst (find_result ?E ?g 3 0 0) < k \<and> k < 3 \<longrightarrow> image_out (?g ! k) \<noteq> 5) \<and>
       draw_connection ?E ?g 3 0 = [LShape black_gc (fst (find_result ?E ?g 3 0 0))]"
    by blast
  have two: "fst (find_result ?E ?g 3 0 0) = 2"
  proof (rule ccontr)
    assume "fst (find_result ?E ?g 3 0 0) \<noteq> 2"
    with found have "fst (find_result ?E ?g 3 0 0) < 2 \<and> (2::nat) < 3" by simp
    with found have "image_out (?g ! 2) \<noteq> 5" by blast
    then show False by simp
  qed
  with sid have "find_result ?E ?g 3 0 0 = (2, 0)"
    by (simp add: prod_eq_iff)
  moreover from found two have "draw_connection ?E ?g 3 0 = [LShape black_gc 2]"
    by simp
  ultimately show ?thesis using len by simp
qed

text \<open>
  Claim C1 as it is stated has a reference to a result that no earlier row declares
  resolve to no producer at all. The \<^verbatim>\<open>in\<close> of the third row refers to result 99, which
  no row declares: \<^verbatim>\<open>find_result\<close> answers as it does for the same row with \<^verbatim>\<open>in\<close> not
  set, and the connection drawn is not absent but the default one, to the second row.
\<close>

theorem dangling_result_counterexample:
  "find_result \<lparr>SP_ATTR_IN = 0, SP_ATTR_IN2 = 1\<rparr>
     [\<lparr>image_in = -1, image_out = 5, ptype = FeOther\<rparr>,
      \<lparr>image_in = -1, image_out = -1, ptype = FeOther\<rparr>,
      \<lparr>image_in = 99, image_out = -1, ptype = FeOther\<rparr>] 2 0 0 = (3, 0) \<and>
   find_result \<lparr>SP_ATTR_IN = 0, SP_ATTR_IN2 = 1\<rparr>
     [\<lparr>image_in = -1, image_out = 5, ptype = FeOther\<rparr>,
      \<lparr>image_in = -1, image_out = -1, ptype = FeOther\<rparr>,
      \<lparr>image_in = -1, image_out = -1, ptype = FeOther\<rparr>] 2 0 0 = (3, 0) \<and>
   draw_connection \<lparr>SP_ATTR_IN = 0, SP_ATTR_IN2 = 1\<rparr>
     [\<lparr>image_in = -1, image_out = 5, ptype = FeOther\<rparr>,
      \<lparr>image_in = -1, image_out = -1, ptype = FeOther\<rparr>,
      \<lparr>image_in = 99, image_out = -1, ptype = FeOther\<rparr>] 2 0 = [LShape black_gc 1] \<and>
   draw_connection \<lparr>SP_ATTR_IN = 0, SP_ATTR_IN2 = 1\<rparr>
     [\<lparr>image_in = -1, image_out = 5, ptype = FeOther\<rparr>,
      \<lparr>image_in = -1, image_out = -1, ptype = FeOther\<rparr>,
      \<lparr>image_in = 99, image_out = -1, ptype = FeOther\<rparr>] 2 0 \<noteq> []"
  by code_simp

lemma scan_results_range:
  "scan_results model img xs target = target \<or> scan_results model img xs target \<in> set xs"
proof (induction xs arbitrary: target)
  case Nil
  show ?case by simp
next
  case (Cons i rest)
  show ?case
    using Cons.IH [of "if image_out (model ! i) = img then i else target"]
    by (auto split: if_splits)
qed

lemma find_result_range:
  "fst (find_result E model start attr src_id) = length model \<or>
   fst (find_result E model start attr src_id) < start \<or>
   (fst (find_result E model start attr src_id) = start \<and>
    (\<exists>img. read_image E (model ! start) attr = Some img \<and> img < -1 \<and>
       snd (find_result E model start attr src_id) = - (img + 2)))"
proof (cases "read_image E (model ! start) attr")
  case None
  then show ?thesis by (simp add: find_result_def)
next
  case (Some img)
  show ?thesis
  proof (cases "0 \<le> img")
    case True
    with Some have "fst (find_result E model start attr src_id) =
        scan_results model img [0..<start] (length model)"
      by (simp add: find_result_def)
    then show ?thesis
      using scan_results_range [of model img "[0..<start]" "length model"] by auto
  next
    case False
    with Some show ?thesis by (simp add: find_result_def)
  qed
qed

text \<open>
  Claim C6: for every list, every row and every slot, \<^verbatim>\<open>find_result\<close> returns the end of
  the list (no producer), a row strictly before \<^verbatim>\<open>start\<close>, or \<^verbatim>\<open>start\<close> itself as the
  mark of a standard input, whose index it writes to \<^verbatim>\<open>src_id\<close>; and every row that
  \<^verbatim>\<open>draw_connection\<close> draws a connection to, the implicit one included, is strictly
  before the row it draws for.
\<close>

theorem find_result_no_forward:
  assumes "start < length model"
  shows "(fst (find_result E model start attr src_id) = length model \<or>
          fst (find_result E model start attr src_id) < start \<or>
          (fst (find_result E model start attr src_id) = start \<and>
           (\<exists>img. read_image E (model ! start) attr = Some img \<and> img < -1 \<and>
              snd (find_result E model start attr src_id) = - (img + 2)))) \<and>
         (\<forall>gc row. LShape gc row \<in> set (draw_connection E model start attr) \<longrightarrow> row < start)"
proof -
  obtain res sid where fr: "find_result E model start attr 0 = (res, sid)"
    by (cases "find_result E model start attr 0")
  have range: "res = length model \<or> res < start \<or> res = start"
    using find_result_range [of E model start attr 0] by (auto simp: fr)
  have "row < start" if "LShape gc row \<in> set (draw_connection E model start attr)" for gc row
  proof -
    from that have "row = start - 1 \<and> start \<noteq> 0 \<or> row = res \<and> res \<noteq> start \<and> res \<noteq> length model"
      unfolding draw_connection_def fr Let_def
      by (auto split: if_splits)
    with range show ?thesis by auto
  qed
  then show ?thesis using find_result_range [of E model start attr src_id] by blast
qed

text \<open>
  The theorem at the \<^verbatim>\<open>in2\<close> of an feBlend in row 3 that refers to the result of row 2.
\<close>

theorem find_result_no_forward_witness:
  "(3::nat) < length
     [\<lparr>image_in = -1, image_out = 5, ptype = FeOther\<rparr>,
      \<lparr>image_in = -1, image_out = -1, ptype = FeOther\<rparr>,
      \<lparr>image_in = -1, image_out = 5, ptype = FeOther\<rparr>,
      \<lparr>image_in = -1, image_out = -1, ptype = FeBlend 5\<rparr>] \<and>
   LShape black_gc 2 \<in> set (draw_connection \<lparr>SP_ATTR_IN = 0, SP_ATTR_IN2 = 1\<rparr>
     [\<lparr>image_in = -1, image_out = 5, ptype = FeOther\<rparr>,
      \<lparr>image_in = -1, image_out = -1, ptype = FeOther\<rparr>,
      \<lparr>image_in = -1, image_out = 5, ptype = FeOther\<rparr>,
      \<lparr>image_in = -1, image_out = -1, ptype = FeBlend 5\<rparr>] 3 1) \<and> (2::nat) < 3"
proof -
  let ?E = "\<lparr>SP_ATTR_IN = 0, SP_ATTR_IN2 = 1\<rparr>"
  let ?g = "[\<lparr>image_in = -1, image_out = 5, ptype = FeOther\<rparr>,
      \<lparr>image_in = -1, image_out = -1, ptype = FeOther\<rparr>,
      \<lparr>image_in = -1, image_out = 5, ptype = FeOther\<rparr>,
      \<lparr>image_in = -1, image_out = -1, ptype = FeBlend 5\<rparr>]"
  have len: "(3::nat) < length ?g" by simp
  have "draw_connection ?E ?g 3 1 = [LShape black_gc 2]"
    by code_simp
  then have drawn: "LShape black_gc 2 \<in> set (draw_connection ?E ?g 3 1)"
    by simp
  from find_result_no_forward [OF len, of ?E 1 0] drawn have "(2::nat) < 3" by blast
  with len drawn show ?thesis by blast
qed

section \<open>Properties of sanitize_connections\<close>

lemma check_single_connection_image_out [simp]:
  "image_out (check_single_connection prim result) = image_out prim"
  by (simp add: check_single_connection_def Let_def split: PrimitiveType.split)

lemma check_single_connection_twice:
  "check_single_connection (check_single_connection prim result) result =
   check_single_connection prim result"
  by (cases "ptype prim")
     (simp_all add: check_single_connection_def Let_def NR_FILTER_SLOT_NOT_SET_def)

lemma check_single_connection_keeps_fixed:
  assumes "check_single_connection prim r = prim"
  shows "check_single_connection (check_single_connection prim a) r =
         check_single_connection prim a"
proof (cases prim)
  case (fields i out t)
  with assms show ?thesis
    by (cases t)
       (auto simp: check_single_connection_def Let_def NR_FILTER_SLOT_NOT_SET_def
             split: if_splits)
qed

lemma fold_check_keeps_fixed:
  "check_single_connection prim r = prim \<Longrightarrow>
   check_single_connection (fold (\<lambda>a p. check_single_connection p a) rs prim) r =
   fold (\<lambda>a p. check_single_connection p a) rs prim"
  by (induction rs arbitrary: prim) (simp_all add: check_single_connection_keeps_fixed)

lemma fold_check_fixed:
  "r \<in> set rs \<Longrightarrow>
   check_single_connection (fold (\<lambda>a p. check_single_connection p a) rs prim) r =
   fold (\<lambda>a p. check_single_connection p a) rs prim"
proof (induction rs arbitrary: prim)
  case Nil
  then show ?case by simp
next
  case (Cons a rs)
  show ?case
  proof (cases "r = a")
    case True
    then show ?thesis
      by (simp add: fold_check_keeps_fixed check_single_connection_twice)
  next
    case False
    with Cons.prems have "r \<in> set rs" by simp
    from Cons.IH [OF this] show ?thesis by simp
  qed
qed

lemma fold_check_image_out [simp]:
  "image_out (fold (\<lambda>a p. check_single_connection p a) rs prim) = image_out prim"
  by (induction rs arbitrary: prim) simp_all

lemma image_out_update_check [simp]:
  "image_out (model[p := check_single_connection (model ! p) r] ! x) = image_out (model ! x)"
  by (cases "p < length model"; cases "x = p") (simp_all add: list_update_beyond)

text \<open>The two phases of the loop.\<close>

lemma sanitize_loop_after:
  "prim_iter \<notin> set xs \<Longrightarrow> prim_iter < length model \<Longrightarrow>
   sanitize_loop prim_iter xs False model =
   model[prim_iter := fold (\<lambda>a p. check_single_connection p a)
                        (map (\<lambda>i. image_out (model ! i)) xs) (model ! prim_iter)]"
proof (induction xs arbitrary: model)
  case Nil
  then show ?case by simp
next
  case (Cons i xs)
  let ?m = "model[prim_iter := check_single_connection (model ! prim_iter) (image_out (model ! i))]"
  from Cons.prems have ne: "i \<noteq> prim_iter" and notin: "prim_iter \<notin> set xs" by auto
  have outs: "map (\<lambda>k. image_out (?m ! k)) xs = map (\<lambda>k. image_out (model ! k)) xs"
    by simp
  have "sanitize_loop prim_iter (i # xs) False model = sanitize_loop prim_iter xs False ?m"
    using ne by simp
  also have "\<dots> = ?m[prim_iter := fold (\<lambda>a p. check_single_connection p a)
                        (map (\<lambda>k. image_out (?m ! k)) xs) (?m ! prim_iter)]"
    using Cons.IH [OF notin, of ?m] Cons.prems by simp
  finally show ?case using Cons.prems by (simp add: outs)
qed

lemma sanitize_loop_before:
  "prim_iter \<notin> set xs \<Longrightarrow>
   sanitize_loop prim_iter (xs @ ys) True model =
   sanitize_loop prim_iter ys True
     (fold (\<lambda>i m. m[i := check_single_connection (m ! i) (image_out (m ! prim_iter))]) xs model)"
  by (induction xs arbitrary: model) simp_all

lemma before_fold_length [simp]:
  "length (fold (\<lambda>i m. m[i := check_single_connection (m ! i) (image_out (m ! p))]) xs model) =
   length model"
  by (induction xs arbitrary: model) simp_all

lemma before_fold_nth:
  "distinct xs \<Longrightarrow>
   fold (\<lambda>i m. m[i := check_single_connection (m ! i) (image_out (m ! p))]) xs model ! k =
   (if k \<in> set xs \<and> k < length model
    then check_single_connection (model ! k) (image_out (model ! p)) else model ! k)"
proof (induction xs arbitrary: model)
  case Nil
  show ?case by simp
next
  case (Cons x xs)
  let ?m = "model[x := check_single_connection (model ! x) (image_out (model ! p))]"
  from Cons.prems have d: "distinct xs" and nx: "x \<notin> set xs" by simp_all
  have "fold (\<lambda>i m. m[i := check_single_connection (m ! i) (image_out (m ! p))]) (x # xs) model ! k =
      fold (\<lambda>i m. m[i := check_single_connection (m ! i) (image_out (m ! p))]) xs ?m ! k"
    by simp
  also have "\<dots> = (if k \<in> set xs \<and> k < length ?m
      then check_single_connection (?m ! k) (image_out (?m ! p)) else ?m ! k)"
    by (rule Cons.IH [OF d])
  also have "\<dots> = (if k \<in> set (x # xs) \<and> k < length model
      then check_single_connection (model ! k) (image_out (model ! p)) else model ! k)"
    using nx by (cases "k = x") (auto simp: nth_list_update list_update_beyond)
  finally show ?case .
qed

lemma fold_check_absorb:
  "set rs' \<subseteq> set rs \<Longrightarrow>
   fold (\<lambda>a p. check_single_connection p a) rs'
     (fold (\<lambda>a p. check_single_connection p a) rs prim) =
   fold (\<lambda>a p. check_single_connection p a) rs prim"
  by (induction rs') (simp_all add: fold_check_fixed)

text \<open>The whole pass, phase by phase.\<close>

lemma sanitize_connections_phases:
  assumes "prim_iter < length model"
  shows "sanitize_connections model prim_iter =
    (let m = fold (\<lambda>i m. m[i := check_single_connection (m ! i) (image_out (m ! prim_iter))])
               [0..<prim_iter] model
     in m[prim_iter := fold (\<lambda>a p. check_single_connection p a)
            (map (\<lambda>i. image_out (m ! i)) [Suc prim_iter..<length model]) (m ! prim_iter)])"
proof -
  let ?m = "fold (\<lambda>i m. m[i := check_single_connection (m ! i) (image_out (m ! prim_iter))])
               [0..<prim_iter] model"
  have split: "[0..<length model] = [0..<prim_iter] @ (prim_iter # [Suc prim_iter..<length model])"
    using assms by (metis le_add_diff_inverse less_imp_le_nat upt_add_eq_append upt_conv_Cons zero_le
        add.commute add_diff_cancel_left' less_imp_add_positive)
  have "sanitize_connections model prim_iter =
      sanitize_loop prim_iter (prim_iter # [Suc prim_iter..<length model]) True ?m"
    unfolding sanitize_connections_def split
    by (rule sanitize_loop_before) simp
  also have "\<dots> = sanitize_loop prim_iter [Suc prim_iter..<length model] False ?m"
    by simp
  also have "\<dots> = ?m[prim_iter := fold (\<lambda>a p. check_single_connection p a)
            (map (\<lambda>i. image_out (?m ! i)) [Suc prim_iter..<length model]) (?m ! prim_iter)]"
    by (rule sanitize_loop_after) (simp_all add: assms)
  finally show ?thesis by (simp add: Let_def)
qed

lemma sanitize_connections_length [simp]:
  "prim_iter < length model \<Longrightarrow>
   length (sanitize_connections model prim_iter) = length model"
  by (simp add: sanitize_connections_phases Let_def)

lemma sanitize_connections_nth:
  assumes "prim_iter < length model" and "k < length model"
  shows "sanitize_connections model prim_iter ! k =
    (if k < prim_iter then
       check_single_connection (model ! k) (image_out (model ! prim_iter))
     else if k = prim_iter then
       fold (\<lambda>a p. check_single_connection p a)
         (map (\<lambda>i. image_out (model ! i)) [Suc prim_iter..<length model]) (model ! prim_iter)
     else model ! k)"
proof -
  let ?m = "fold (\<lambda>i m. m[i := check_single_connection (m ! i) (image_out (m ! prim_iter))])
               [0..<prim_iter] model"
  have m_nth: "?m ! i = (if i < prim_iter \<and> i < length model
      then check_single_connection (model ! i) (image_out (model ! prim_iter)) else model ! i)" for i
    using before_fold_nth [of "[0..<prim_iter]" prim_iter model i] by simp
  have outs: "map (\<lambda>i. image_out (?m ! i)) [Suc prim_iter..<length model] =
      map (\<lambda>i. image_out (model ! i)) [Suc prim_iter..<length model]"
    by (rule map_cong [OF refl]) (simp add: m_nth)
  have mp: "?m ! prim_iter = model ! prim_iter"
    by (simp add: m_nth)
  have "sanitize_connections model prim_iter =
      ?m[prim_iter := fold (\<lambda>a p. check_single_connection p a)
            (map (\<lambda>i. image_out (model ! i)) [Suc prim_iter..<length model]) (model ! prim_iter)]"
    unfolding sanitize_connections_phases [OF assms(1)] Let_def outs mp ..
  then show ?thesis
    using assms by (simp add: nth_list_update m_nth)
qed

text \<open>
  Claim C8: the pass is idempotent. For every list and every row of it, running
  \<^verbatim>\<open>sanitize_connections\<close> for that row a second time gives exactly the list that the
  first run gave.
\<close>

theorem sanitize_connections_idempotent:
  assumes "prim_iter < length model"
  shows "sanitize_connections (sanitize_connections model prim_iter) prim_iter =
         sanitize_connections model prim_iter"
proof (rule nth_equalityI)
  let ?r = "sanitize_connections model prim_iter"
  have len: "length ?r = length model" using assms by simp
  then have p: "prim_iter < length ?r" using assms by simp
  show "length (sanitize_connections ?r prim_iter) = length ?r"
    using p by simp
  have out: "image_out (?r ! i) = image_out (model ! i)" if "i < length model" for i
    using assms that by (simp add: sanitize_connections_nth)
  have outs: "map (\<lambda>i. image_out (?r ! i)) [Suc prim_iter..<length ?r] =
      map (\<lambda>i. image_out (model ! i)) [Suc prim_iter..<length model]"
    unfolding len by (rule map_cong [OF refl]) (simp add: out)
  fix k
  assume "k < length (sanitize_connections ?r prim_iter)"
  then have k: "k < length model" using p len by simp
  then have k': "k < length ?r" using len by simp
  consider "k < prim_iter" | "k = prim_iter" | "prim_iter < k" by linarith
  then show "sanitize_connections ?r prim_iter ! k = ?r ! k"
  proof cases
    case 1
    then show ?thesis
      using assms k
      by (simp add: sanitize_connections_nth [OF p k'] out
            sanitize_connections_nth [OF assms k] check_single_connection_twice)
  next
    case 2
    let ?outs = "map (\<lambda>i. image_out (model ! i)) [Suc prim_iter..<length model]"
    have r_p: "?r ! prim_iter =
        fold (\<lambda>a p. check_single_connection p a) ?outs (model ! prim_iter)"
      using sanitize_connections_nth [OF assms assms] by simp
    have "sanitize_connections ?r prim_iter ! prim_iter =
        fold (\<lambda>a p. check_single_connection p a)
          (map (\<lambda>i. image_out (?r ! i)) [Suc prim_iter..<length ?r]) (?r ! prim_iter)"
      using sanitize_connections_nth [OF p p] by simp
    also have "\<dots> = fold (\<lambda>a p. check_single_connection p a) ?outs
        (fold (\<lambda>a p. check_single_connection p a) ?outs (model ! prim_iter))"
      unfolding outs r_p ..
    also have "\<dots> = fold (\<lambda>a p. check_single_connection p a) ?outs (model ! prim_iter)"
      by (rule fold_check_absorb) simp
    also have "\<dots> = ?r ! prim_iter"
      using r_p by simp
    finally show ?thesis using 2 by simp
  next
    case 3
    then show ?thesis
      using assms k
      by (simp add: sanitize_connections_nth [OF p k'])
  qed
qed

text \<open>
  The theorem at a list of four rows and its second row: the first run clears three
  slots, the second changes nothing.
\<close>

theorem sanitize_connections_idempotent_witness:
  "(1::nat) < length
     [\<lparr>image_in = 1, image_out = -1, ptype = FeBlend 1\<rparr>,
      \<lparr>image_in = 3, image_out = 1, ptype = FeComposite 4\<rparr>,
      \<lparr>image_in = 1, image_out = 3, ptype = FeOther\<rparr>,
      \<lparr>image_in = 3, image_out = 4, ptype = FeOther\<rparr>] \<and>
   sanitize_connections
     [\<lparr>image_in = 1, image_out = -1, ptype = FeBlend 1\<rparr>,
      \<lparr>image_in = 3, image_out = 1, ptype = FeComposite 4\<rparr>,
      \<lparr>image_in = 1, image_out = 3, ptype = FeOther\<rparr>,
      \<lparr>image_in = 3, image_out = 4, ptype = FeOther\<rparr>] 1 =
     [\<lparr>image_in = -1, image_out = -1, ptype = FeBlend (-1)\<rparr>,
      \<lparr>image_in = -1, image_out = 1, ptype = FeComposite (-1)\<rparr>,
      \<lparr>image_in = 1, image_out = 3, ptype = FeOther\<rparr>,
      \<lparr>image_in = 3, image_out = 4, ptype = FeOther\<rparr>] \<and>
   sanitize_connections
     [\<lparr>image_in = -1, image_out = -1, ptype = FeBlend (-1)\<rparr>,
      \<lparr>image_in = -1, image_out = 1, ptype = FeComposite (-1)\<rparr>,
      \<lparr>image_in = 1, image_out = 3, ptype = FeOther\<rparr>,
      \<lparr>image_in = 3, image_out = 4, ptype = FeOther\<rparr>] 1 =
     [\<lparr>image_in = -1, image_out = -1, ptype = FeBlend (-1)\<rparr>,
      \<lparr>image_in = -1, image_out = 1, ptype = FeComposite (-1)\<rparr>,
      \<lparr>image_in = 1, image_out = 3, ptype = FeOther\<rparr>,
      \<lparr>image_in = 3, image_out = 4, ptype = FeOther\<rparr>]"
proof -
  let ?g = "[\<lparr>image_in = 1, image_out = -1, ptype = FeBlend 1\<rparr>,
      \<lparr>image_in = 3, image_out = 1, ptype = FeComposite 4\<rparr>,
      \<lparr>image_in = 1, image_out = 3, ptype = FeOther\<rparr>,
      \<lparr>image_in = 3, image_out = 4, ptype = FeOther\<rparr>]"
  let ?r = "[\<lparr>image_in = -1, image_out = -1, ptype = FeBlend (-1)\<rparr>,
      \<lparr>image_in = -1, image_out = 1, ptype = FeComposite (-1)\<rparr>,
      \<lparr>image_in = 1, image_out = 3, ptype = FeOther\<rparr>,
      \<lparr>image_in = 3, image_out = 4, ptype = FeOther\<rparr>]"
  have len: "(1::nat) < length ?g" by simp
  have once: "sanitize_connections ?g 1 = ?r" by code_simp
  from sanitize_connections_idempotent [OF len] have "sanitize_connections ?r 1 = ?r"
    unfolding once .
  with len once show ?thesis by blast
qed

text \<open>
  What the pass clears: the \<^verbatim>\<open>in\<close> of a row before the moved one that refers to the
  result of the moved one, and the \<^verbatim>\<open>in\<close> of the moved one when it refers to the result
  of a row after it.
\<close>

lemma check_single_connection_image_in:
  "image_in (check_single_connection prim r) =
     (if 0 \<le> r \<and> image_in prim = r then NR_FILTER_SLOT_NOT_SET else image_in prim)"
  by (cases "ptype prim") (simp_all add: check_single_connection_def Let_def)

lemma fold_check_image_in:
  "image_in (fold (\<lambda>a p. check_single_connection p a) rs prim) =
     (if 0 \<le> image_in prim \<and> image_in prim \<in> set rs then NR_FILTER_SLOT_NOT_SET
      else image_in prim)"
proof (induction rs arbitrary: prim)
  case Nil
  show ?case by simp
next
  case (Cons a rs)
  show ?case
    by (auto simp: Cons.IH check_single_connection_image_in NR_FILTER_SLOT_NOT_SET_def)
qed

lemma sanitize_clears_in_before:
  assumes "prim_iter < length model" and "k < prim_iter"
    and "0 \<le> image_out (model ! prim_iter)"
    and "image_in (model ! k) = image_out (model ! prim_iter)"
  shows "image_in (sanitize_connections model prim_iter ! k) = NR_FILTER_SLOT_NOT_SET"
proof -
  from assms have "k < length model" by simp
  from sanitize_connections_nth [OF assms(1) this] assms show ?thesis
    by (simp add: check_single_connection_image_in)
qed

lemma sanitize_clears_in_of_moved:
  assumes "prim_iter < k" and "k < length model"
    and "0 \<le> image_out (model ! k)"
    and "image_in (model ! prim_iter) = image_out (model ! k)"
  shows "image_in (sanitize_connections model prim_iter ! prim_iter) = NR_FILTER_SLOT_NOT_SET"
proof -
  from assms have p: "prim_iter < length model" by simp
  have "image_out (model ! k) \<in> set (map (\<lambda>i. image_out (model ! i)) [Suc prim_iter..<length model])"
    using assms by auto
  with sanitize_connections_nth [OF p p] assms show ?thesis
    by (simp add: fold_check_image_in)
qed

text \<open>
  Claim C2 has the clearing applied to each slot, the slots of the merge nodes of an
  feMerge included. \<^verbatim>\<open>check_single_connection\<close> looks at \<^verbatim>\<open>image_in\<close> and at the \<^verbatim>\<open>in2\<close>
  of the three two-input primitives only: a merge node that refers to the result of the
  moved primitive, now after it, keeps its reference (and \<^verbatim>\<open>find_result\<close> still reads
  it), and so does a merge node of a moved feMerge that refers to a row now after it,
  where the \<^verbatim>\<open>in\<close> of an ordinary primitive in the same place is cleared.
\<close>

theorem sanitize_connections_skips_merge_nodes:
  "sanitize_connections
     [\<lparr>image_in = -1, image_out = -1, ptype = FeMerge [FeMergeNode 1]\<rparr>,
      \<lparr>image_in = -1, image_out = 1, ptype = FeOther\<rparr>] 1 =
     [\<lparr>image_in = -1, image_out = -1, ptype = FeMerge [FeMergeNode 1]\<rparr>,
      \<lparr>image_in = -1, image_out = 1, ptype = FeOther\<rparr>] \<and>
   read_image \<lparr>SP_ATTR_IN = 0, SP_ATTR_IN2 = 1\<rparr>
     (sanitize_connections
        [\<lparr>image_in = -1, image_out = -1, ptype = FeMerge [FeMergeNode 1]\<rparr>,
         \<lparr>image_in = -1, image_out = 1, ptype = FeOther\<rparr>] 1 ! 0) 0 = Some 1 \<and>
   sanitize_connections
     [\<lparr>image_in = -1, image_out = 1, ptype = FeOther\<rparr>,
      \<lparr>image_in = -1, image_out = -1, ptype = FeMerge [FeMergeNode 1]\<rparr>] 0 =
     [\<lparr>image_in = -1, image_out = 1, ptype = FeOther\<rparr>,
      \<lparr>image_in = -1, image_out = -1, ptype = FeMerge [FeMergeNode 1]\<rparr>] \<and>
   sanitize_connections
     [\<lparr>image_in = 1, image_out = -1, ptype = FeOther\<rparr>,
      \<lparr>image_in = -1, image_out = 1, ptype = FeOther\<rparr>] 1 =
     [\<lparr>image_in = -1, image_out = -1, ptype = FeOther\<rparr>,
      \<lparr>image_in = -1, image_out = 1, ptype = FeOther\<rparr>]"
  by code_simp

section \<open>Properties of draw_connection\<close>

text \<open>
  A slot that holds \<open>-1\<close>, the number of no reference: a merge node gets no connection
  at all; the first row gets a straight connection to the first standard input, in the
  lighter graphic context; a later row gets an L-shaped connection to the row before it.
\<close>

lemma find_result_not_set:
  "read_image E (model ! inp) attr = Some (-1) \<Longrightarrow>
   find_result E model inp attr src_id = (length model, src_id)"
  by (simp add: find_result_def)

lemma draw_connection_merge_unspecified:
  assumes "inp < length model" and "ptype (model ! inp) = FeMerge cs"
    and "read_image E (model ! inp) attr = Some (-1)"
  shows "draw_connection E model inp attr = []"
  using assms by (simp add: draw_connection_def find_result_not_set)

lemma draw_connection_first_unspecified:
  assumes "0 < length model" and "\<forall>cs. ptype (model ! 0) \<noteq> FeMerge cs"
    and "read_image E (model ! 0) attr = Some (-1)"
  shows "draw_connection E model 0 attr = [Straight dark_gc_normal 0]"
  using assms
  by (cases "ptype (model ! 0)") (simp_all add: draw_connection_def find_result_not_set)

lemma draw_connection_later_unspecified:
  assumes "0 < inp" and "inp < length model" and "\<forall>cs. ptype (model ! inp) \<noteq> FeMerge cs"
    and "read_image E (model ! inp) attr = Some (-1)"
  shows "draw_connection E model inp attr = [LShape black_gc (inp - 1)]"
  using assms
  by (cases "ptype (model ! inp)")
     (auto simp: draw_connection_def find_result_not_set Let_def)

text \<open>
  Claim C3 has the implicit connection drawn lighter than an explicit one. For the
  L-shaped connection \<^verbatim>\<open>draw_connection\<close> chooses the lighter context (\<open>gc\<close>), as its
  comment says, and then gives the black one to each of its drawing calls: in the second
  row, the implicit connection to the first row and an explicit connection to the result
  of the first row are the same drawing. Only in the first row does the implicit
  connection differ from an explicit one to the same standard input.
\<close>

theorem draw_connection_implicit_not_lighter:
  "draw_connection \<lparr>SP_ATTR_IN = 0, SP_ATTR_IN2 = 1\<rparr>
     [\<lparr>image_in = -1, image_out = 7, ptype = FeOther\<rparr>,
      \<lparr>image_in = -1, image_out = -1, ptype = FeOther\<rparr>] 1 0 = [LShape black_gc 0] \<and>
   draw_connection \<lparr>SP_ATTR_IN = 0, SP_ATTR_IN2 = 1\<rparr>
     [\<lparr>image_in = -1, image_out = 7, ptype = FeOther\<rparr>,
      \<lparr>image_in = 7, image_out = -1, ptype = FeOther\<rparr>] 1 0 = [LShape black_gc 0] \<and>
   draw_connection \<lparr>SP_ATTR_IN = 0, SP_ATTR_IN2 = 1\<rparr>
     [\<lparr>image_in = -1, image_out = 7, ptype = FeOther\<rparr>,
      \<lparr>image_in = -1, image_out = -1, ptype = FeOther\<rparr>] 0 0 = [Straight dark_gc_normal 0] \<and>
   draw_connection \<lparr>SP_ATTR_IN = 0, SP_ATTR_IN2 = 1\<rparr>
     [\<lparr>image_in = -2, image_out = 7, ptype = FeOther\<rparr>,
      \<lparr>image_in = -1, image_out = -1, ptype = FeOther\<rparr>] 0 0 = [Straight black_gc 0]"
  by code_simp

section \<open>Properties of the release of a dragged connection\<close>

text \<open>
  The loop over the children of an feMerge, for a counter that starts at \<open>c\<close>: a slot
  number outside the children leaves them alone, the slot of an feMergeNode removes the
  node when \<^verbatim>\<open>in_val\<close> is null and sets its \<^verbatim>\<open>in\<close> otherwise.
\<close>

lemma merge_loop_miss:
  "drag < c \<or> c + int (length cs) \<le> drag \<Longrightarrow>
   merge_loop lk cs c drag in_val = (cs, False, c + int (length cs))"
  by (induction cs arbitrary: c) auto

lemma merge_loop_hit:
  "k < length cs \<Longrightarrow> cs ! k \<noteq> OtherRepr \<Longrightarrow>
   merge_loop lk cs c (c + int k) in_val =
     (case in_val of
        None \<Rightarrow> take k cs @ drop (Suc k) cs
      | Some v \<Rightarrow> cs[k := set_attr_child lk (cs ! k) in_val],
      True, c + int k + 1)"
proof (induction cs arbitrary: c k)
  case Nil
  then show ?case by simp
next
  case (Cons obj rest)
  show ?case
  proof (cases k)
    case 0
    with Cons.prems show ?thesis by (simp split: option.split)
  next
    case (Suc k')
    with Cons.prems have k': "k' < length rest" "rest ! k' \<noteq> OtherRepr" by simp_all
    have eq: "c + int k = (c + 1) + int k'" using Suc by simp
    have ne: "c \<noteq> c + int k" using Suc by simp
    have "merge_loop lk (obj # rest) c (c + int k) in_val =
        (let (rest', handled, c') = merge_loop lk rest (c + 1) ((c + 1) + int k') in_val
         in (obj # rest', handled, c'))"
      using ne unfolding eq [symmetric] by simp
    also have "\<dots> =
        (case in_val of
           None \<Rightarrow> obj # (take k' rest @ drop (Suc k') rest)
         | Some v \<Rightarrow> obj # rest[k' := set_attr_child lk (rest ! k') in_val],
         True, (c + 1) + int k' + 1)"
      unfolding Cons.IH [OF k'] by (simp split: option.split)
    finally show ?thesis using Suc by (simp split: option.split)
  qed
qed

text \<open>
  Claim C5: a commit on slot \<open>k\<close> of an feMerge (\<^verbatim>\<open>_in_drag\<close> is \<open>k + 1\<close>), the dialog
  not locked. When the target is null and the child at the slot is an feMergeNode, the
  node is removed and the feMerge has one child less; on the trailing slot, one past the
  last child, a target that is not null is appended as a new feMergeNode with that
  \<^verbatim>\<open>in\<close>; otherwise the \<^verbatim>\<open>in\<close> of the feMergeNode at the slot is set in place. (On the
  trailing slot a null target changes nothing.)
\<close>

theorem commit_merge_cases:
  "(k < length cs \<and> cs ! k = FeMergeNodeRepr v \<longrightarrow>
      commit_merge False cs (int k + 1) None = take k cs @ drop (Suc k) cs \<and>
      length (commit_merge False cs (int k + 1) None) = length cs - 1) \<and>
   commit_merge False cs (int (length cs) + 1) (Some t) = cs @ [FeMergeNodeRepr (Some t)] \<and>
   (k < length cs \<and> cs ! k = FeMergeNodeRepr v \<longrightarrow>
      commit_merge False cs (int k + 1) (Some t) = cs[k := FeMergeNodeRepr (Some t)]) \<and>
   commit_merge False cs (int (length cs) + 1) None = cs"
proof -
  have hit: "merge_loop False cs 1 (int k + 1) in_val =
      (case in_val of
         None \<Rightarrow> take k cs @ drop (Suc k) cs
       | Some w \<Rightarrow> cs[k := set_attr_child False (cs ! k) in_val],
       True, 1 + int k + 1)"
    if "k < length cs" "cs ! k = FeMergeNodeRepr v" for in_val
  proof -
    from that have "cs ! k \<noteq> OtherRepr" by simp
    from merge_loop_hit [OF that(1) this, of False 1 in_val] show ?thesis
      by (simp add: add.commute)
  qed
  have miss: "merge_loop False cs 1 (int (length cs) + 1) in_val =
      (cs, False, 1 + int (length cs))" for in_val
    by (rule merge_loop_miss) simp
  have remove: "commit_merge False cs (int k + 1) None = take k cs @ drop (Suc k) cs"
    if "k < length cs" "cs ! k = FeMergeNodeRepr v"
    using hit [OF that, of None] by (simp add: commit_merge_def)
  have shorter: "length (take k cs @ drop (Suc k) cs) = length cs - 1" if "k < length cs"
    using that by simp
  have add: "commit_merge False cs (int (length cs) + 1) (Some t) =
      cs @ [FeMergeNodeRepr (Some t)]"
    by (simp add: commit_merge_def miss set_attr_child_def)
  have update: "commit_merge False cs (int k + 1) (Some t) = cs[k := FeMergeNodeRepr (Some t)]"
    if "k < length cs" "cs ! k = FeMergeNodeRepr v"
    using hit [OF that, of "Some t"] that by (simp add: commit_merge_def set_attr_child_def)
  have untouched: "commit_merge False cs (int (length cs) + 1) None = cs"
    by (simp add: commit_merge_def miss)
  from remove shorter add update untouched show ?thesis by simp
qed

text \<open>
  The scenario of the spec: two merge nodes and a standard source dropped on the trailing
  slot give three; the release of the second slot with no target gives two again; a target
  released on the second slot replaces its reference.
\<close>

theorem commit_merge_cases_witness:
  "(1::nat) < length [FeMergeNodeRepr (Some ''a''), FeMergeNodeRepr (Some ''b''),
                      FeMergeNodeRepr (Some ''SourceGraphic'')] \<and>
   commit_merge False [FeMergeNodeRepr (Some ''a''), FeMergeNodeRepr (Some ''b'')] 3
     (Some ''SourceGraphic'') =
     [FeMergeNodeRepr (Some ''a''), FeMergeNodeRepr (Some ''b''),
      FeMergeNodeRepr (Some ''SourceGraphic'')] \<and>
   commit_merge False [FeMergeNodeRepr (Some ''a''), FeMergeNodeRepr (Some ''b''),
                       FeMergeNodeRepr (Some ''SourceGraphic'')] 2 None =
     [FeMergeNodeRepr (Some ''a''), FeMergeNodeRepr (Some ''SourceGraphic'')] \<and>
   commit_merge False [FeMergeNodeRepr (Some ''a''), FeMergeNodeRepr (Some ''b''),
                       FeMergeNodeRepr (Some ''SourceGraphic'')] 2 (Some ''c'') =
     [FeMergeNodeRepr (Some ''a''), FeMergeNodeRepr (Some ''c''),
      FeMergeNodeRepr (Some ''SourceGraphic'')]"
proof -
  let ?two = "[FeMergeNodeRepr (Some ''a''), FeMergeNodeRepr (Some ''b'')]"
  let ?three = "[FeMergeNodeRepr (Some ''a''), FeMergeNodeRepr (Some ''b''),
                 FeMergeNodeRepr (Some ''SourceGraphic'')]"
  have k: "(1::nat) < length ?three \<and> ?three ! 1 = FeMergeNodeRepr (Some ''b'')"
    by simp
  have "commit_merge False ?two (int (length ?two) + 1) (Some ''SourceGraphic'') =
      ?two @ [FeMergeNodeRepr (Some ''SourceGraphic'')]"
    using commit_merge_cases [of 0 ?two None "''SourceGraphic''"] by blast
  then have add: "commit_merge False ?two 3 (Some ''SourceGraphic'') = ?three"
    by simp
  have "commit_merge False ?three (int 1 + 1) None = take 1 ?three @ drop (Suc 1) ?three"
    using commit_merge_cases [of 1 ?three "Some ''b''" "''c''"] k by blast
  then have remove: "commit_merge False ?three 2 None =
      [FeMergeNodeRepr (Some ''a''), FeMergeNodeRepr (Some ''SourceGraphic'')]"
    by simp
  have "commit_merge False ?three (int 1 + 1) (Some ''c'') =
      ?three[1 := FeMergeNodeRepr (Some ''c'')]"
    using commit_merge_cases [of 1 ?three "Some ''b''" "''c''"] k by blast
  then have update: "commit_merge False ?three 2 (Some ''c'') =
      [FeMergeNodeRepr (Some ''a''), FeMergeNodeRepr (Some ''c''),
       FeMergeNodeRepr (Some ''SourceGraphic'')]"
    by simp
  from k add remove update show ?thesis by blast
qed



lemma commit_ordinary_in:
  "\<not> is_femerge (reprs ! sel) \<Longrightarrow>
   commit False 1 sel reprs in_val = reprs[sel := (reprs ! sel)\<lparr>attr_in := in_val\<rparr>]"
  by (simp add: commit_def set_attr_in_def Let_def)

lemma commit_ordinary_in2:
  "\<not> is_femerge (reprs ! sel) \<Longrightarrow>
   commit False 2 sel reprs in_val = reprs[sel := (reprs ! sel)\<lparr>attr_in2 := in_val\<rparr>]"
  by (simp add: commit_def set_attr_in2_def Let_def)

lemma commit_femerge:
  "is_femerge (reprs ! sel) \<Longrightarrow>
   commit lk drag sel reprs in_val =
     reprs[sel := (reprs ! sel)\<lparr>kids := commit_merge lk (kids (reprs ! sel)) drag in_val\<rparr>]"
  by (simp add: commit_def Let_def)







end
